theory Spec2Isabelle
  imports Complex_Main "HOL-Library.Word" "HOL-Library.Log_Nat"
begin

section \<open>The whisper proxy: one WebSocket connection of \<open>services/openai-whisper-proxy/main.py\<close>\<close>

text \<open>
  The handler \<open>ws_proxy\<close> keeps its per-connection variables in the closure that
  \<open>flush_audio\<close> shares. The model passes them as a record, threads the outside world
  (the Redis stream, the transcription backend, the uuid generator, the wall clock) as a
  second record, and turns every exception that can leave a function into a value.
\<close>

subsection \<open>Decoded JSON values\<close>

text \<open>
  What \<open>json.loads\<close> returns, and what the closure variables \<open>token\<close>, \<open>platform\<close>,
  \<open>meeting_id\<close>, \<open>uid\<close> and \<open>speaker\<close> hold: \<open>JNull\<close> is Python's \<open>None\<close>. The
  items of an object are listed in order; a decoded object has distinct keys. JSON
  numbers with a fraction or an exponent (Python floats) are not part of the model.
\<close>

datatype json =
    JNull
  | JBool bool
  | JInt int
  | JStr string
  | JArr "json list"
  | JObj "(string \<times> json) list"

text \<open>Python truthiness, as used by \<open>not x\<close> and \<open>x or y\<close>.\<close>

fun truthy :: "json \<Rightarrow> bool" where
  "truthy JNull = False"
| "truthy (JBool b) = b"
| "truthy (JInt i) = (i \<noteq> 0)"
| "truthy (JStr s) = (s \<noteq> [])"
| "truthy (JArr xs) = (xs \<noteq> [])"
| "truthy (JObj kvs) = (kvs \<noteq> [])"

definition py_or :: "json \<Rightarrow> json \<Rightarrow> json" where
  "py_or a b = (if truthy a then a else b)"

text \<open>\<open>d.get(k)\<close> and \<open>d.get(k, default)\<close> on a dict, \<open>k in d\<close>.\<close>

definition dict_get :: "(string \<times> json) list \<Rightarrow> string \<Rightarrow> json" where
  "dict_get kvs k = (case map_of kvs k of None \<Rightarrow> JNull | Some v \<Rightarrow> v)"

definition dict_get_default :: "(string \<times> json) list \<Rightarrow> string \<Rightarrow> json \<Rightarrow> json" where
  "dict_get_default kvs k d = (case map_of kvs k of None \<Rightarrow> d | Some v \<Rightarrow> v)"

definition dict_has :: "(string \<times> json) list \<Rightarrow> string \<Rightarrow> bool" where
  "dict_has kvs k = (case map_of kvs k of None \<Rightarrow> False | Some v \<Rightarrow> True)"

text \<open>
  Python's \<open>==\<close> on decoded values: \<open>True == 1\<close> and \<open>False == 0\<close>, lists compare
  item by item, dicts compare key by key whatever the order of the items.
\<close>

fun py_num :: "json \<Rightarrow> int option" where
  "py_num (JBool b) = Some (if b then 1 else 0)"
| "py_num (JInt i) = Some i"
| "py_num v = None"

fun py_eq :: "json \<Rightarrow> json \<Rightarrow> bool"
  and py_eq_list :: "json list \<Rightarrow> json list \<Rightarrow> bool"
  and py_eq_items :: "(string \<times> json) list \<Rightarrow> (string \<times> json) list \<Rightarrow> bool" where
  "py_eq JNull b = (b = JNull)"
| "py_eq (JStr s) b = (b = JStr s)"
| "py_eq (JBool x) b = (py_num b = Some (if x then 1 else 0))"
| "py_eq (JInt i) b = (py_num b = Some i)"
| "py_eq (JArr xs) b = (case b of JArr ys \<Rightarrow> py_eq_list xs ys | _ \<Rightarrow> False)"
| "py_eq (JObj kvs) b =
     (case b of
        JObj kvs' \<Rightarrow> py_eq_items kvs kvs' \<and> list_all (dict_has kvs) (map fst kvs')
      | _ \<Rightarrow> False)"
| "py_eq_list [] ys = (ys = [])"
| "py_eq_list (x # xs) ys =
     (case ys of [] \<Rightarrow> False | y # ys' \<Rightarrow> py_eq x y \<and> py_eq_list xs ys')"
| "py_eq_items [] kvs' = True"
| "py_eq_items ((k, v) # kvs) kvs' =
     ((case map_of kvs' k of None \<Rightarrow> False | Some v' \<Rightarrow> py_eq v v') \<and> py_eq_items kvs kvs')"

subsection \<open>Python floats\<close>

text \<open>
  \<open>offset_sec\<close>, \<open>CHUNK_SECONDS\<close>, \<open>last_send\<close> and the loop clock are Python
  floats: IEEE 754 binary64 numbers. The model holds a float as the real number it
  denotes and rounds the exact result of every addition and subtraction to the nearest
  binary64 number, ties to the even significand, as the hardware does: \<open>bexp x\<close> is
  the binary exponent of \<open>x\<close>, \<open>fexp x\<close> the exponent of the last place of its 53-bit
  significand (the same for all subnormal numbers), and \<open>rnd x\<close> the nearest multiple
  of \<open>2 powi fexp x\<close>. Infinities and NaN are not part of the model: a sum beyond the
  largest binary64 number is rounded like any other.
\<close>

definition round_half_even :: "real \<Rightarrow> int" where
  "round_half_even r =
     (let f = \<lfloor>r\<rfloor>; d = r - of_int f
      in if d < 1 / 2 then f else if 1 / 2 < d then f + 1 else if even f then f else f + 1)"

definition bexp :: "real \<Rightarrow> int" where
  "bexp x =
     (let a = \<bar>x\<bar>
      in if 1 \<le> a then bitlen \<lfloor>a\<rfloor> - 1 else - bitlen (\<lceil>1 / a\<rceil> - 1))"

definition fexp :: "real \<Rightarrow> int" where
  "fexp x = max (bexp x) (- 1022) - 52"

definition rnd :: "real \<Rightarrow> real" where
  "rnd x = (if x = 0 then 0
            else of_int (round_half_even (x / 2 powi fexp x)) * 2 powi fexp x)"

text \<open>Python's \<open>x + y\<close> and \<open>x - y\<close> on floats.\<close>

definition fadd :: "real \<Rightarrow> real \<Rightarrow> real" where
  "fadd x y = rnd (x + y)"

definition fsub :: "real \<Rightarrow> real \<Rightarrow> real" where
  "fsub x y = rnd (x - y)"

subsection \<open>Numbers as text: \<open>f"{x:.3f}"\<close>\<close>

text \<open>
  The format \<open>.3f\<close> rounds the exact value of the float to three decimals, ties to
  even, and keeps the sign of the value.
\<close>

definition digit :: "nat \<Rightarrow> char" where
  "digit n = ''0123456789'' ! n"

fun dec :: "nat \<Rightarrow> string" where
  "dec n = (if n < 10 then [digit n] else dec (n div 10) @ [digit (n mod 10)])"

declare dec.simps [simp del]

definition fmt3 :: "real \<Rightarrow> string" where
  "fmt3 x =
     (let m = nat (round_half_even (\<bar>x\<bar> * 1000));
          frac = m mod 1000
      in (if x < 0 then ''-'' else '''') @ dec (m div 1000) @ ''.'' @
         [digit (frac div 100), digit (frac div 10 mod 10), digit (frac mod 10)])"

subsection \<open>The outside world\<close>

type_synonym bytes = "8 word list"

text \<open>
  The file object handed to the backend (lines 87 to 95): a WAV container named
  \<open>chunk.wav\<close> with the parameters the code sets and the frames it writes.
\<close>

record wav =
  wav_name :: string
  nchannels :: nat
  sampwidth :: nat
  framerate :: nat
  frames :: bytes

definition to_wav :: "bytes \<Rightarrow> wav" where
  "to_wav audio_bytes =
     \<lparr>wav_name = ''chunk.wav'', nchannels = 1, sampwidth = 2, framerate = 16000,
      frames = audio_bytes\<rparr>"

text \<open>
  The configuration and the behaviour of the collaborators. \<open>redis\<close> says whether the
  module-level handle is set (the startup hook sets it). The \<open>k\<close>-th call of each
  collaborator (counting from 0) answers as the functions say: \<open>xadd_ok k\<close> is whether
  the \<open>k\<close>-th \<open>redis.xadd\<close> returns rather than raises, \<open>create_resp k f\<close> is the text
  of the \<open>k\<close>-th \<open>client.audio.transcriptions.create\<close> on file \<open>f\<close>, or \<open>None\<close> when
  it raises.
\<close>

record env =
  redis :: bool
  CHUNK_SECONDS :: real
  xadd_ok :: "nat \<Rightarrow> bool"
  create_resp :: "nat \<Rightarrow> wav \<Rightarrow> string option"
  uuid4 :: "nat \<Rightarrow> string"
  utcnow :: "nat \<Rightarrow> string"

text \<open>
  What the handler does to the world, in order. \<open>Flush\<close> is a history mark: an
  invocation of \<open>flush_audio\<close> with these bytes. \<open>Xadd p ok\<close> is a call of
  \<open>redis.xadd\<close> with payload \<open>p\<close>; the stream holds \<open>p\<close> iff \<open>ok\<close>.
\<close>

datatype effect =
    Flush bytes
  | Xadd json bool
  | Create wav "string option"
  | LogInfo json string
  | WsClose

record world =
  trace :: "effect list"
  xadd_n :: nat
  create_n :: nat
  uuid_n :: nat
  utcnow_n :: nat

definition init_world :: world where
  "init_world = \<lparr>trace = [], xadd_n = 0, create_n = 0, uuid_n = 0, utcnow_n = 0\<rparr>"

fun published :: "effect list \<Rightarrow> json list" where
  "published [] = []"
| "published (Xadd p ok # es) = (if ok then p # published es else published es)"
| "published (e # es) = published es"

fun flushed :: "effect list \<Rightarrow> bytes list" where
  "flushed [] = []"
| "flushed (Flush a # es) = a # flushed es"
| "flushed (e # es) = flushed es"

fun created :: "effect list \<Rightarrow> wav list" where
  "created [] = []"
| "created (Create f r # es) = f # created es"
| "created (e # es) = created es"

definition payload_type :: "json \<Rightarrow> json" where
  "payload_type p = (case p of JObj kvs \<Rightarrow> dict_get kvs ''type'' | _ \<Rightarrow> JNull)"

definition payload_uid :: "json \<Rightarrow> json" where
  "payload_uid p = (case p of JObj kvs \<Rightarrow> dict_get kvs ''uid'' | _ \<Rightarrow> JNull)"

definition is_session_start :: "json \<Rightarrow> bool" where
  "is_session_start p = (payload_type p = JStr ''session_start'')"

definition is_transcription :: "json \<Rightarrow> bool" where
  "is_transcription p = (payload_type p = JStr ''transcription'')"

subsection \<open>The connection's variables\<close>

record conn =
  buf :: bytes
  speaker :: json
  last_send :: real
  token :: json
  platform :: json
  meeting_id :: json
  uid :: json
  sent_session_start :: bool
  offset_sec :: real

text \<open>Lines 46 to 59; \<open>t0\<close> is the loop clock when the connection is accepted.\<close>

definition init_conn :: "real \<Rightarrow> conn" where
  "init_conn t0 =
     \<lparr>buf = [], speaker = JStr ''unknown'', last_send = t0,
      token = JNull, platform = JNull, meeting_id = JNull, uid = JNull,
      sent_session_start = False, offset_sec = 0\<rparr>"

datatype py_error = BackendError | TypeError | AttributeError

subsection \<open>\<open>flush_audio\<close>\<close>

text \<open>\<open>await redis.xadd(STREAM_NAME, {"payload": json.dumps(p)})\<close>: whether it returned.\<close>

definition xadd :: "env \<Rightarrow> json \<Rightarrow> world \<Rightarrow> bool \<times> world" where
  "xadd e p w =
     (let ok = xadd_ok e (xadd_n w)
      in (ok, w\<lparr>trace := trace w @ [Xadd p ok], xadd_n := Suc (xadd_n w)\<rparr>))"

text \<open>\<open>uid or str(uuid.uuid4())\<close> (lines 77 and 122).\<close>

definition uid_or_uuid4 :: "env \<Rightarrow> conn \<Rightarrow> world \<Rightarrow> json \<times> world" where
  "uid_or_uuid4 e c w =
     (if truthy (uid c) then (uid c, w)
      else (JStr (uuid4 e (uuid_n w)), w\<lparr>uuid_n := Suc (uuid_n w)\<rparr>))"

text \<open>Lines 72 to 79.\<close>

definition session_start_payload :: "env \<Rightarrow> conn \<Rightarrow> world \<Rightarrow> json \<times> world" where
  "session_start_payload e c w =
     (let (u, w1) = uid_or_uuid4 e c w;
          ts = utcnow e (utcnow_n w1) @ ''Z'';
          w2 = w1\<lparr>utcnow_n := Suc (utcnow_n w1)\<rparr>
      in (JObj [(''type'', JStr ''session_start''),
                (''token'', token c),
                (''platform'', platform c),
                (''meeting_id'', meeting_id c),
                (''uid'', u),
                (''start_timestamp'', JStr ts)], w2))"

text \<open>Lines 70 to 84: the flag is set only when \<open>xadd\<close> returned; its failure is caught.\<close>

definition publish_session_start :: "env \<Rightarrow> conn \<times> world \<Rightarrow> conn \<times> world" where
  "publish_session_start e s =
     (let (c, w) = s;
          (p, w1) = session_start_payload e c w;
          (ok, w2) = xadd e p w1
      in (if ok then c\<lparr>sent_session_start := True\<rparr> else c, w2))"

text \<open>Lines 107 to 123.\<close>

definition segment :: "env \<Rightarrow> string \<Rightarrow> real \<Rightarrow> json" where
  "segment e text nonlocal_offset =
     (let start_time = nonlocal_offset;
          end_time = fadd nonlocal_offset (CHUNK_SECONDS e)
      in JObj [(''text'', JStr text),
               (''start'', JStr (fmt3 start_time)),
               (''end'', JStr (fmt3 end_time)),
               (''language'', JNull)])"

definition transcription_payload ::
  "env \<Rightarrow> conn \<Rightarrow> string \<Rightarrow> real \<Rightarrow> world \<Rightarrow> json \<times> world" where
  "transcription_payload e c text nonlocal_offset w =
     (let (u, w1) = uid_or_uuid4 e c w
      in (JObj [(''type'', JStr ''transcription''),
                (''token'', token c),
                (''platform'', platform c),
                (''meeting_id'', meeting_id c),
                (''segments'', JArr [segment e text nonlocal_offset]),
                (''uid'', u)], w1))"

text \<open>
  Lines 86 to 101: the conversion and the backend call, \<open>None\<close> when it raises.
\<close>

definition transcribe :: "env \<Rightarrow> bytes \<Rightarrow> world \<Rightarrow> string option \<times> world" where
  "transcribe e audio_bytes w =
     (let fileobj = to_wav audio_bytes;
          resp = create_resp e (create_n w) fileobj
      in (resp, w\<lparr>trace := trace w @ [Create fileobj resp], create_n := Suc (create_n w)\<rparr>))"

text \<open>
  Lines 103 to 129: the log line, the payload and its \<open>xadd\<close>, whose failure is
  caught.
\<close>

definition publish_transcription ::
  "env \<Rightarrow> conn \<Rightarrow> json \<Rightarrow> string \<Rightarrow> real \<Rightarrow> world \<Rightarrow> world" where
  "publish_transcription e c current_speaker text nonlocal_offset w =
     (let w1 = w\<lparr>trace := trace w @ [LogInfo current_speaker text]\<rparr>;
          (payload, w2) = transcription_payload e c text nonlocal_offset w1
      in if redis e then snd (xadd e payload w2) else w2)"

text \<open>
  Lines 61 to 131. The result is the new offset, or the exception that leaves the
  function: the backend call is the only statement outside a \<open>try\<close> that can raise.
\<close>

definition flush_audio ::
  "env \<Rightarrow> bytes \<Rightarrow> json \<Rightarrow> real \<Rightarrow> conn \<times> world \<Rightarrow> (py_error + real) \<times> conn \<times> world" where
  "flush_audio e audio_bytes current_speaker nonlocal_offset s =
     (let (c, w0) = s;
          w = w0\<lparr>trace := trace w0 @ [Flush audio_bytes]\<rparr>
      in if audio_bytes = [] \<or> \<not> truthy (token c) \<or> \<not> truthy (platform c)
            \<or> \<not> truthy (meeting_id c)
         then (Inr nonlocal_offset, c, w)
         else
           let (c1, w1) = (if redis e \<and> \<not> sent_session_start c
                           then publish_session_start e (c, w) else (c, w));
               (resp, w2) = transcribe e audio_bytes w1
           in case resp of
                None \<Rightarrow> (Inl BackendError, c1, w2)
              | Some text \<Rightarrow>
                  let end_time = fadd nonlocal_offset (CHUNK_SECONDS e);
                      w3 = publish_transcription e c1 current_speaker text nonlocal_offset w2
                  in (Inr end_time, c1, w3))"

subsection \<open>The receive loop\<close>

text \<open>
  A message of \<open>ws.receive()\<close>: the disconnect, a binary frame together with the loop
  clock read at line 144, or a text frame with what \<open>json.loads\<close> makes of it
  (\<open>None\<close> when it raises \<open>JSONDecodeError\<close>).
\<close>

datatype msg = Disconnect | Bytes bytes real | Text "json option"

text \<open>Lines 142 to 148.\<close>

definition on_bytes ::
  "env \<Rightarrow> bytes \<Rightarrow> real \<Rightarrow> conn \<times> world \<Rightarrow> py_error option \<times> conn \<times> world" where
  "on_bytes e data_bytes now s =
     (let (c0, w) = s;
          c = c0\<lparr>buf := buf c0 @ data_bytes\<rparr>
      in if fsub now (last_send c) \<ge> CHUNK_SECONDS e
         then (case flush_audio e (buf c) (speaker c) (offset_sec c) (c, w) of
                 (Inl err, c1, w1) \<Rightarrow> (Some err, c1, w1)
               | (Inr off, c1, w1) \<Rightarrow>
                   (None, c1\<lparr>offset_sec := off, buf := [], last_send := now\<rparr>, w1))
         else (None, c, w))"

text \<open>Lines 164 to 171, for an object \<open>obj\<close> whose \<open>type\<close> is \<open>speaker_activity\<close>.\<close>

definition speaker_activity :: "(string \<times> json) list \<Rightarrow> conn \<Rightarrow> py_error option \<times> conn" where
  "speaker_activity obj c =
     (case dict_get_default obj ''payload'' (JObj []) of
        JObj payload_event \<Rightarrow>
          (let ev = dict_get payload_event ''event_type'';
               name_evt = py_or (dict_get payload_event ''participant_name'') (JStr ''unknown'')
           in if ev = JStr ''SPEAKER_START'' then (None, c\<lparr>speaker := name_evt\<rparr>)
              else if ev = JStr ''SPEAKER_END'' \<and> py_eq name_evt (speaker c)
              then (None, c\<lparr>speaker := JStr ''unknown''\<rparr>)
              else (None, c))
      | _ \<Rightarrow> (Some AttributeError, c))"

text \<open>
  Lines 150 to 173. Only \<open>JSONDecodeError\<close> is caught: a decoded value that is not an
  object raises \<open>TypeError\<close> at \<open>k in obj\<close> (null, booleans, numbers) or
  \<open>AttributeError\<close> at \<open>obj.get\<close> (strings, arrays), and that leaves the loop.
\<close>

definition on_text :: "json option \<Rightarrow> conn \<Rightarrow> py_error option \<times> conn" where
  "on_text data_text c =
     (case data_text of
        None \<Rightarrow> (None, c)
      | Some (JObj obj) \<Rightarrow>
          if list_all (dict_has obj) [''token'', ''platform'', ''meeting_id'']
          then (None, c\<lparr>token := dict_get obj ''token'',
                        platform := dict_get obj ''platform'',
                        meeting_id := dict_get obj ''meeting_id'',
                        uid := py_or (dict_get obj ''uid'') (uid c)\<rparr>)
          else if dict_get obj ''type'' = JStr ''speaker_activity''
          then speaker_activity obj c
          else (None, c)
      | Some (JStr s) \<Rightarrow> (Some AttributeError, c)
      | Some (JArr xs) \<Rightarrow> (Some AttributeError, c)
      | Some v \<Rightarrow> (Some TypeError, c))"

text \<open>
  How the handler stands when the messages given are used up: still waiting in
  \<open>ws.receive()\<close>, returned after \<open>ws.close()\<close>, or left by an exception.
\<close>

datatype outcome =
    Awaiting conn world
  | Returned conn world
  | Raised py_error conn world

fun conn_of :: "outcome \<Rightarrow> conn" where
  "conn_of (Awaiting c w) = c"
| "conn_of (Returned c w) = c"
| "conn_of (Raised err c w) = c"

fun world_of :: "outcome \<Rightarrow> world" where
  "world_of (Awaiting c w) = w"
| "world_of (Returned c w) = w"
| "world_of (Raised err c w) = w"

text \<open>
  Lines 175 to 178, entered with the exception that ended the loop, if any. An
  exception of the final flush replaces it and skips \<open>ws.close()\<close>.
\<close>

definition ws_close :: "py_error option \<Rightarrow> conn \<times> world \<Rightarrow> outcome" where
  "ws_close pending s =
     (let (c, w) = s;
          w1 = w\<lparr>trace := trace w @ [WsClose]\<rparr>
      in case pending of None \<Rightarrow> Returned c w1 | Some err \<Rightarrow> Raised err c w1)"

definition ws_finally :: "env \<Rightarrow> py_error option \<Rightarrow> conn \<times> world \<Rightarrow> outcome" where
  "ws_finally e pending s =
     (let (c, w) = s
      in if buf c \<noteq> []
         then (case flush_audio e (buf c) (speaker c) (offset_sec c) (c, w) of
                 (Inl err, c1, w1) \<Rightarrow> Raised err c1 w1
               | (Inr off, c1, w1) \<Rightarrow> ws_close pending (c1\<lparr>offset_sec := off\<rparr>, w1))
         else ws_close pending (c, w))"

text \<open>Lines 133 to 173: one message after the other.\<close>

fun ws_loop :: "env \<Rightarrow> conn \<times> world \<Rightarrow> msg list \<Rightarrow> outcome" where
  "ws_loop e s [] = Awaiting (fst s) (snd s)"
| "ws_loop e s (Disconnect # ms) = ws_finally e None s"
| "ws_loop e s (Bytes data_bytes now # ms) =
     (case on_bytes e data_bytes now s of
        (Some err, s1) \<Rightarrow> ws_finally e (Some err) s1
      | (None, s1) \<Rightarrow> ws_loop e s1 ms)"
| "ws_loop e s (Text data_text # ms) =
     (case on_text data_text (fst s) of
        (Some err, c1) \<Rightarrow> ws_finally e (Some err) (c1, snd s)
      | (None, c1) \<Rightarrow> ws_loop e (c1, snd s) ms)"

definition ws_proxy :: "env \<Rightarrow> real \<Rightarrow> msg list \<Rightarrow> outcome" where
  "ws_proxy e t0 ms = ws_loop e (init_conn t0, init_world) ms"

subsection \<open>Example runs\<close>

text \<open>
  A world in which every collaborator answers, one in which the backend is down, and
  the identity message of the scenarios.
\<close>

definition env_ok :: env where
  "env_ok =
     \<lparr>redis = True, CHUNK_SECONDS = 5, xadd_ok = (\<lambda>k. True),
      create_resp = (\<lambda>k f. Some ''hello''),
      uuid4 = (\<lambda>k. if k = 0 then ''uuid-0'' else ''uuid-1''),
      utcnow = (\<lambda>k. ''2024-01-01T00:00:00'')\<rparr>"

definition env_backend_down :: env where
  "env_backend_down = env_ok\<lparr>create_resp := (\<lambda>k f. None)\<rparr>"

definition env_stream_down :: env where
  "env_stream_down = env_ok\<lparr>xadd_ok := (\<lambda>k. False)\<rparr>"

text \<open>A configuration with a negative chunk length: \<open>CHUNK_SECONDS=-1\<close>.\<close>

definition env_negative_chunk :: env where
  "env_negative_chunk = env_ok\<lparr>CHUNK_SECONDS := - 1\<rparr>"

definition ident :: json where
  "ident = JObj [(''token'', JStr ''t1''), (''platform'', JStr ''zoom''),
                 (''meeting_id'', JStr ''m1'')]"

text \<open>The connection's variables once \<open>ident\<close> has been received.\<close>

definition c_ident :: conn where
  "c_ident =
     (init_conn 0)\<lparr>token := JStr ''t1'', platform := JStr ''zoom'', meeting_id := JStr ''m1''\<rparr>"

definition ident_uid :: "string \<Rightarrow> json" where
  "ident_uid u = JObj [(''token'', JStr ''t1''), (''platform'', JStr ''zoom''),
                       (''meeting_id'', JStr ''m1''), (''uid'', JStr u)]"

definition speaker_msg :: "string \<Rightarrow> string \<Rightarrow> json" where
  "speaker_msg ev name =
     JObj [(''type'', JStr ''speaker_activity''),
           (''payload'', JObj [(''event_type'', JStr ev), (''participant_name'', JStr name)])]"

subsection \<open>Notions the properties are stated with\<close>

text \<open>The three identity fields that \<open>flush_audio\<close> requires (line 65).\<close>

definition identity_complete :: "conn \<Rightarrow> bool" where
  "identity_complete c = (truthy (token c) \<and> truthy (platform c) \<and> truthy (meeting_id c))"

text \<open>
  A flush that gets as far as the timeline: there is audio, the identity is complete
  and the backend call, the next one the world will see, answers.
\<close>

definition flush_advances :: "env \<Rightarrow> bytes \<Rightarrow> conn \<Rightarrow> world \<Rightarrow> bool" where
  "flush_advances e audio_bytes c w =
     (audio_bytes \<noteq> [] \<and> identity_complete c \<and>
      (case create_resp e (create_n w) (to_wav audio_bytes) of None \<Rightarrow> False | Some txt \<Rightarrow> True))"

text \<open>The start and the end that a payload with a single segment carries.\<close>

definition segment_times :: "json \<Rightarrow> (json \<times> json) option" where
  "segment_times p =
     (case p of
        JObj kvs \<Rightarrow>
          (case dict_get kvs ''segments'' of
             JArr [JObj seg] \<Rightarrow> Some (dict_get seg ''start'', dict_get seg ''end'')
           | _ \<Rightarrow> None)
      | _ \<Rightarrow> None)"

text \<open>The offset is a float.\<close>

definition offset_inv :: "conn \<times> world \<Rightarrow> bool" where
  "offset_inv s = (rnd (offset_sec (fst s)) = offset_sec (fst s))"

text \<open>The exception that ended the handler, if one did.\<close>

fun raised :: "outcome \<Rightarrow> py_error option" where
  "raised (Raised err c w) = Some err"
| "raised out = None"

text \<open>
  An identity message, as line 155 recognises it, carries the uid \<open>u\<close>; any other
  message passes.
\<close>

fun supplies_uid :: "json \<Rightarrow> msg \<Rightarrow> bool" where
  "supplies_uid u (Text (Some (JObj obj))) =
     (if list_all (dict_has obj) [''token'', ''platform'', ''meeting_id'']
      then dict_get obj ''uid'' = u else True)"
| "supplies_uid u m = True"







text \<open>
  While every identity message supplies the uid \<open>u\<close>: the connection holds \<open>u\<close>
  as soon as its identity is complete, and the stream holds payloads of uid \<open>u\<close> only.
\<close>

definition uid_inv :: "json \<Rightarrow> conn \<times> world \<Rightarrow> bool" where
  "uid_inv u s =
     ((uid (fst s) = u \<or> \<not> identity_complete (fst s)) \<and>
      list_all (\<lambda>p. payload_uid p = u) (published (trace (snd s))))"

text \<open>The number of \<open>session_start\<close> payloads the stream holds.\<close>

definition ss_count :: "effect list \<Rightarrow> nat" where
  "ss_count tr = length (filter is_session_start (published tr))"

definition ss_inv :: "conn \<times> world \<Rightarrow> bool" where
  "ss_inv s = (ss_count (trace (snd s)) = (if sent_session_start (fst s) then 1 else 0))"

section \<open>Properties\<close>

subsection \<open>Rounding to the nearest float\<close>

lemma rhe_cases: "round_half_even r = \<lfloor>r\<rfloor> \<or> round_half_even r = \<lfloor>r\<rfloor> + 1"
  by (simp add: round_half_even_def Let_def)

lemma rhe_of_int [simp]: "round_half_even (of_int n) = n"
  by (simp add: round_half_even_def Let_def)

lemma rhe_mono:
  assumes "a \<le> b"
  shows "round_half_even a \<le> round_half_even b"
proof (cases "\<lfloor>a\<rfloor> < \<lfloor>b\<rfloor>")
  case True
  then show ?thesis using rhe_cases [of a] rhe_cases [of b] by linarith
next
  case False
  then have "\<lfloor>a\<rfloor> = \<lfloor>b\<rfloor>" using floor_mono [OF assms] by linarith
  then show ?thesis using assms by (simp add: round_half_even_def Let_def)
qed

lemma floor_minus_nonint:
  assumes "r \<noteq> of_int \<lfloor>r\<rfloor>"
  shows "\<lfloor>- r\<rfloor> = - \<lfloor>r\<rfloor> - 1"
proof (rule floor_unique)
  have "of_int \<lfloor>r\<rfloor> < r" using assms of_int_floor_le [of r] by linarith
  then show "of_int (- \<lfloor>r\<rfloor> - 1) \<le> - r" using floor_correct [of r] by simp
  show "- r < of_int (- \<lfloor>r\<rfloor> - 1) + 1" using \<open>of_int \<lfloor>r\<rfloor> < r\<close> by simp
qed

lemma rhe_minus: "round_half_even (- r) = - round_half_even r"
proof (cases "r = of_int \<lfloor>r\<rfloor>")
  case True
  have "round_half_even (- of_int \<lfloor>r\<rfloor>) = - \<lfloor>r\<rfloor>"
    using rhe_of_int [of "- \<lfloor>r\<rfloor>"] by simp
  then show ?thesis using True rhe_of_int [of "\<lfloor>r\<rfloor>"] by simp
next
  case False
  note fl = floor_minus_nonint [OF False]
  define f where "f = \<lfloor>r\<rfloor>"
  define d where "d = r - of_int f"
  have r: "r = of_int f + d" by (simp add: d_def)
  have d': "- r - of_int (- f - 1) = 1 - d" by (simp add: d_def)
  have lhs: "round_half_even (- r) =
      (if 1 - d < 1 / 2 then - f - 1 else if 1 / 2 < 1 - d then - f else if even (- f - 1) then - f - 1 else - f)"
    unfolding round_half_even_def Let_def fl f_def [symmetric] d' by simp
  have rhs: "round_half_even r =
      (if d < 1 / 2 then f else if 1 / 2 < d then f + 1 else if even f then f else f + 1)"
    unfolding round_half_even_def Let_def f_def [symmetric] d_def [symmetric] by simp
  show ?thesis unfolding lhs rhs by (cases "d < 1 / 2"; cases "1 / 2 < d") auto
qed

lemma bexp_bounds_ge1:
  assumes "1 \<le> a"
  shows "2 powi (bitlen \<lfloor>a\<rfloor> - 1) \<le> (a :: real)" and "a < 2 powi (bitlen \<lfloor>a\<rfloor> - 1 + 1)"
proof -
  let ?n = "\<lfloor>a\<rfloor>"
  have n: "0 < ?n" using assms by simp
  note b = bitlen_bounds [OF n]
  have len: "1 \<le> bitlen ?n" using n by (simp add: bitlen_alt_def)
  have "(2 :: real) powi (bitlen ?n - 1) = 2 ^ nat (bitlen ?n - 1)"
    using len by (simp add: power_int_nonneg_exp)
  also have "\<dots> = of_int (2 ^ nat (bitlen ?n - 1))" by simp
  also have "\<dots> \<le> of_int ?n" using b unfolding of_int_le_iff by simp
  also have "\<dots> \<le> a" by simp
  finally show "2 powi (bitlen ?n - 1) \<le> a" .
  have "?n + 1 \<le> 2 ^ nat (bitlen ?n)" using b by simp
  then have "of_int (?n + 1) \<le> (of_int (2 ^ nat (bitlen ?n)) :: real)"
    unfolding of_int_le_iff .
  then have "of_int ?n + 1 \<le> (2 :: real) ^ nat (bitlen ?n)" by simp
  moreover have "a < of_int ?n + 1" by linarith
  moreover have "(2 :: real) powi (bitlen ?n - 1 + 1) = 2 ^ nat (bitlen ?n)"
    using len by (simp add: power_int_nonneg_exp)
  ultimately show "a < 2 powi (bitlen ?n - 1 + 1)" by linarith
qed

lemma bexp_bounds_lt1:
  assumes "0 < a" and "a < 1"
  shows "2 powi (- bitlen (\<lceil>1 / a\<rceil> - 1)) \<le> (a :: real)"
    and "a < 2 powi (- bitlen (\<lceil>1 / a\<rceil> - 1) + 1)"
proof -
  let ?y = "1 / a"
  let ?m = "\<lceil>?y\<rceil> - 1"
  let ?L = "bitlen ?m"
  have y: "1 < ?y" using assms by simp
  have m: "0 < ?m" using y by linarith
  note b = bitlen_bounds [OF m]
  have len: "1 \<le> ?L" using m by (simp add: bitlen_alt_def)
  have "?y \<le> of_int (?m + 1)" by simp
  also have "\<dots> \<le> of_int (2 ^ nat ?L)" using b unfolding of_int_le_iff by simp
  finally have up: "?y \<le> 2 ^ nat ?L" by simp
  have "(2 :: real) powi (- ?L) = 1 / 2 ^ nat ?L"
    using len by (simp add: power_int_minus_divide power_int_nonneg_exp)
  also have "\<dots> \<le> a" using up assms(1) by (simp add: field_simps)
  finally show "2 powi (- ?L) \<le> a" .
  have "of_int (2 ^ nat (?L - 1)) \<le> (of_int ?m :: real)" using b unfolding of_int_le_iff by simp
  moreover have "of_int ?m < ?y" by linarith
  ultimately have lo: "2 ^ nat (?L - 1) < ?y" by simp
  have "(2 :: real) powi (- ?L + 1) = 1 / 2 ^ nat (?L - 1)"
  proof -
    have "- ?L + 1 = - (?L - 1)" by simp
    then show ?thesis using len by (simp only: power_int_minus_divide) (simp add: power_int_nonneg_exp)
  qed
  moreover have "a < 1 / 2 ^ nat (?L - 1)" using lo assms(1) by (simp add: field_simps)
  ultimately show "a < 2 powi (- ?L + 1)" by simp
qed

lemma bexp_bounds:
  assumes "x \<noteq> 0"
  shows "2 powi bexp x \<le> \<bar>x\<bar>" and "\<bar>x\<bar> < 2 powi (bexp x + 1)"
proof -
  have pos: "0 < \<bar>x\<bar>" using assms by simp
  show "2 powi bexp x \<le> \<bar>x\<bar>"
    using bexp_bounds_ge1 (1) [of "\<bar>x\<bar>"] bexp_bounds_lt1 (1) [OF pos]
    by (cases "1 \<le> \<bar>x\<bar>") (simp_all add: bexp_def Let_def)
  show "\<bar>x\<bar> < 2 powi (bexp x + 1)"
    using bexp_bounds_ge1 (2) [of "\<bar>x\<bar>"] bexp_bounds_lt1 (2) [OF pos]
    by (cases "1 \<le> \<bar>x\<bar>") (simp_all add: bexp_def Let_def)
qed

lemma pow2_less_imp: "(2 :: real) powi i < 2 powi j \<Longrightarrow> i < j"
  by (metis linorder_not_less one_less_numeral_iff power_int_increasing semiring_norm(76) less_eq_real_def)

lemma bexp_le:
  assumes "x \<noteq> 0" and "\<bar>x\<bar> < 2 powi (j + 1)"
  shows "bexp x \<le> j"
proof -
  have "(2 :: real) powi bexp x < 2 powi (j + 1)"
    using bexp_bounds(1) [OF assms(1)] assms(2) by linarith
  from pow2_less_imp [OF this] show ?thesis by simp
qed

lemma bexp_ge:
  assumes "x \<noteq> 0" and "2 powi j \<le> \<bar>x\<bar>"
  shows "j \<le> bexp x"
proof -
  have "(2 :: real) powi j < 2 powi (bexp x + 1)"
    using bexp_bounds(2) [OF assms(1)] assms(2) by linarith
  from pow2_less_imp [OF this] show ?thesis by simp
qed

lemma fexp_ge: "- 1074 \<le> fexp x"
  by (simp add: fexp_def)

lemma fexp_minus [simp]: "fexp (- x) = fexp x"
  by (simp add: fexp_def bexp_def)

lemma fexp_mono:
  assumes "x \<noteq> 0" and "\<bar>x\<bar> \<le> \<bar>y\<bar>"
  shows "fexp x \<le> fexp y"
proof -
  have y: "y \<noteq> 0" using assms by auto
  have "2 powi bexp x \<le> \<bar>y\<bar>" using bexp_bounds(1) [OF assms(1)] assms(2) by linarith
  from bexp_ge [OF y this] show ?thesis by (simp add: fexp_def)
qed

lemma pow2_split: "(2 :: real) powi (k + int n) = 2 powi k * 2 ^ n"
  by (simp add: power_int_add)

lemma pow2_52: "(2 :: real) powi (k + 52) = 2 powi k * 2 ^ 52"
  using pow2_split [of k 52] by simp

lemma pow2_53: "(2 :: real) powi (k + 53) = 2 powi k * 2 ^ 53"
  using pow2_split [of k 53] by simp

lemma rhe_le: "a \<le> of_int n \<Longrightarrow> round_half_even a \<le> n"
  using rhe_mono [of a "of_int n"] by simp

lemma rhe_ge: "of_int n \<le> a \<Longrightarrow> n \<le> round_half_even a"
  using rhe_mono [of "of_int n" a] by simp

lemma quot_upper:
  assumes "x \<noteq> 0"
  shows "\<bar>x\<bar> / 2 powi fexp x < 2 ^ 53"
proof -
  have "bexp x + 1 \<le> fexp x + 53" by (simp add: fexp_def)
  then have "(2 :: real) powi (bexp x + 1) \<le> 2 powi (fexp x + 53)"
    by (intro power_int_increasing) simp_all
  then have "\<bar>x\<bar> < 2 powi (fexp x + 53)" using bexp_bounds(2) [OF assms] by linarith
  also have "\<dots> = 2 powi fexp x * 2 ^ 53" by (rule pow2_53)
  finally show ?thesis by (simp add: field_simps)
qed

lemma quot_lower:
  assumes "x \<noteq> 0" and "- 1074 < fexp x"
  shows "2 ^ 52 \<le> \<bar>x\<bar> / 2 powi fexp x"
proof -
  have e: "bexp x = fexp x + 52" using assms(2) by (auto simp: fexp_def max_def split: if_splits)
  have "(2 :: real) powi fexp x * 2 ^ 52 = 2 powi bexp x"
    using pow2_52 [of "fexp x"] e by simp
  also have "\<dots> \<le> \<bar>x\<bar>" using bexp_bounds(1) [OF assms(1)] .
  finally show ?thesis by (simp add: field_simps)
qed

lemma rnd_0 [simp]: "rnd 0 = 0"
  by (simp add: rnd_def)

lemma rnd_minus: "rnd (- x) = - rnd x"
  by (simp add: rnd_def rhe_minus)

lemma rnd_nonneg:
  assumes "0 \<le> x"
  shows "0 \<le> rnd x"
proof (cases "x = 0")
  case True
  then show ?thesis by simp
next
  case False
  have "of_int 0 \<le> x / 2 powi fexp x" using assms by simp
  from rhe_ge [OF this] have "0 \<le> round_half_even (x / 2 powi fexp x)" .
  then show ?thesis using False by (simp add: rnd_def)
qed

lemma rnd_mono_pos:
  assumes "0 < x" and "x \<le> y"
  shows "rnd x \<le> rnd y"
proof -
  have nz: "x \<noteq> 0" "y \<noteq> 0" and abs: "\<bar>x\<bar> = x" "\<bar>y\<bar> = y" using assms by simp_all
  have le: "fexp x \<le> fexp y" using fexp_mono [of x y] assms by simp
  show ?thesis
  proof (cases "fexp x = fexp y")
    case True
    have "x / 2 powi fexp y \<le> y / 2 powi fexp y" using assms(2) by (simp add: divide_right_mono)
    from rhe_mono [OF this] show ?thesis using nz True by (simp add: rnd_def)
  next
    case False
    then have lt: "fexp x + 1 \<le> fexp y" using le by simp
    then have "- 1074 < fexp y" using fexp_ge [of x] by linarith
    define P :: int where "P = 2 ^ 52"
    define Q :: int where "Q = 2 ^ 53"
    have P: "(of_int P :: real) = 2 ^ 52" and Q: "(of_int Q :: real) = 2 ^ 53"
      by (simp_all add: P_def Q_def)
    from quot_lower [OF nz(2) \<open>- 1074 < fexp y\<close>]
    have "of_int P \<le> y / 2 powi fexp y" using abs by (simp only: P)
    from rhe_ge [OF this] have "of_int P \<le> (of_int (round_half_even (y / 2 powi fexp y)) :: real)"
      by (simp only: of_int_le_iff)
    then have "of_int P * 2 powi fexp y \<le> rnd y"
      using nz(2) by (simp add: rnd_def mult_right_mono del: of_int_le_iff)
    then have lo: "2 powi (fexp y + 52) \<le> rnd y"
      by (simp only: P mult.commute pow2_52)
    have "x / 2 powi fexp x \<le> of_int Q" using quot_upper [OF nz(1)] abs by (simp only: Q)
    from rhe_le [OF this] have "(of_int (round_half_even (x / 2 powi fexp x)) :: real) \<le> of_int Q"
      by (simp only: of_int_le_iff)
    then have "rnd x \<le> of_int Q * 2 powi fexp x"
      using nz(1) by (simp add: rnd_def mult_right_mono del: of_int_le_iff)
    then have hi: "rnd x \<le> 2 powi (fexp x + 53)"
      by (simp only: Q mult.commute pow2_53)
    have "(2 :: real) powi (fexp x + 53) \<le> 2 powi (fexp y + 52)"
      using lt by (intro power_int_increasing) simp_all
    then show ?thesis using lo hi by linarith
  qed
qed

lemma rnd_mono:
  assumes "x \<le> y"
  shows "rnd x \<le> rnd y"
proof -
  consider "0 < x" | "x \<le> 0" "0 \<le> y" | "y < 0" by linarith
  then show ?thesis
  proof cases
    case 1
    then show ?thesis using rnd_mono_pos assms by simp
  next
    case 2
    have "0 \<le> rnd (- x)" using 2 by (intro rnd_nonneg) simp
    then have "rnd x \<le> 0" by (simp add: rnd_minus)
    then show ?thesis using rnd_nonneg [OF 2(2)] by linarith
  next
    case 3
    have "rnd (- y) \<le> rnd (- x)" using 3 assms by (intro rnd_mono_pos) simp_all
    then show ?thesis by (simp add: rnd_minus)
  qed
qed

lemma rnd_grid:
  assumes "\<bar>n\<bar> < 2 ^ 53" and "- 1074 \<le> k"
  shows "rnd (of_int n * 2 powi k) = of_int n * 2 powi k"
proof (cases "n = 0")
  case True
  then show ?thesis by simp
next
  case False
  let ?x = "of_int n * (2 :: real) powi k"
  have nz: "?x \<noteq> 0" using False by simp
  have "\<bar>?x\<bar> = of_int \<bar>n\<bar> * 2 powi k" by (simp add: abs_mult)
  also have "\<dots> < of_int (2 ^ 53) * 2 powi k"
    using assms(1) by (intro mult_strict_right_mono) (simp_all only: of_int_less_iff zero_less_power_int zero_less_numeral)
  also have "\<dots> = 2 powi (k + 52 + 1)"
  proof -
    have "k + 52 + 1 = k + 53" by simp
    then show ?thesis by (simp only: pow2_53 mult.commute of_int_power of_int_numeral)
  qed
  finally have "bexp ?x \<le> k + 52" by (rule bexp_le [OF nz])
  then have j: "fexp ?x \<le> k" using assms(2) by (simp add: fexp_def)
  define j where "j = fexp ?x"
  have jk: "j \<le> k" using j by (simp add: j_def)
  have split: "(2 :: real) powi k = 2 powi j * 2 ^ nat (k - j)"
    using pow2_split [of j "nat (k - j)"] jk by simp
  have "?x / 2 powi j = of_int (n * 2 ^ nat (k - j))" by (simp add: split)
  then have "round_half_even (?x / 2 powi j) = n * 2 ^ nat (k - j)" by (simp only: rhe_of_int)
  then have "rnd ?x = of_int (n * 2 ^ nat (k - j)) * 2 powi j"
    using nz unfolding rnd_def j_def by simp
  also have "\<dots> = ?x" by (simp add: split)
  finally show ?thesis .
qed

lemma rnd_on_grid: "\<exists>n k. rnd z = of_int n * 2 powi k \<and> \<bar>n\<bar> < 2 ^ 53 \<and> - 1074 \<le> k"
proof (cases "z = 0")
  case True
  then show ?thesis by (intro exI [of _ 0] exI [of _ 0]) simp
next
  case False
  define m where "m = round_half_even (z / 2 powi fexp z)"
  have r: "rnd z = of_int m * 2 powi fexp z" using False by (simp add: rnd_def m_def)
  define q where "q = z / 2 powi fexp z"
  have "\<bar>q\<bar> = \<bar>z\<bar> / 2 powi fexp z" by (simp add: q_def abs_divide)
  then have q: "\<bar>q\<bar> < 2 ^ 53" using quot_upper [OF False] by simp
  have "q \<le> of_int (2 ^ 53)" "of_int (- (2 ^ 53)) \<le> q" using q by simp_all
  from rhe_le [OF this(1)] rhe_ge [OF this(2)]
  have m: "m \<le> 2 ^ 53" "- (2 ^ 53) \<le> m" unfolding m_def q_def by simp_all
  show ?thesis
  proof (cases "\<bar>m\<bar> < 2 ^ 53")
    case True
    then show ?thesis using r fexp_ge [of z] by blast
  next
    case False
    then consider "m = 2 ^ 53" | "m = - (2 ^ 53)" using m by linarith
    then show ?thesis
    proof cases
      case 1
      have "rnd z = of_int (2 ^ 52) * 2 powi (fexp z + 1)"
        using r 1 by (simp add: power_int_add)
      moreover have "\<bar>2 ^ 52 :: int\<bar> < 2 ^ 53" "- 1074 \<le> fexp z + 1" using fexp_ge [of z] by simp_all
      ultimately show ?thesis by blast
    next
      case 2
      have "rnd z = of_int (- (2 ^ 52)) * 2 powi (fexp z + 1)"
        using r 2 by (simp add: power_int_add)
      moreover have "\<bar>- (2 ^ 52) :: int\<bar> < 2 ^ 53" "- 1074 \<le> fexp z + 1" using fexp_ge [of z] by simp_all
      ultimately show ?thesis by blast
    qed
  qed
qed

lemma rnd_idem [simp]: "rnd (rnd z) = rnd z"
proof -
  obtain n k where "rnd z = of_int n * 2 powi k" "\<bar>n\<bar> < 2 ^ 53" "- 1074 \<le> k"
    using rnd_on_grid by blast
  then show ?thesis using rnd_grid by simp
qed

lemma fadd_ge:
  assumes "rnd x = x" and "0 \<le> c"
  shows "x \<le> fadd x c"
proof -
  have "rnd x \<le> rnd (x + c)" using assms(2) by (intro rnd_mono) simp
  then show ?thesis using assms(1) by (simp add: fadd_def)
qed

lemma rnd_of_int:
  assumes "\<bar>n\<bar> < 2 ^ 53"
  shows "rnd (of_int n) = of_int n"
  using rnd_grid [OF assms, of 0] by simp

text \<open>Small whole numbers are floats: the examples compute with them.\<close>

lemma rnd_numeral [simp]: "(numeral k :: int) < 2 ^ 53 \<Longrightarrow> rnd (numeral k) = numeral k"
  using rnd_of_int [of "numeral k"] by simp

lemma rnd_neg_numeral [simp]:
  "(numeral k :: int) < 2 ^ 53 \<Longrightarrow> rnd (- numeral k) = - numeral k"
  using rnd_numeral [of k] by (simp add: rnd_minus)

lemma rnd_1 [simp]: "rnd 1 = 1"
  using rnd_of_int [of 1] by simp

lemma rnd_neg_1 [simp]: "rnd (- 1) = - 1"
  by (simp add: rnd_minus)


subsection \<open>Traces and \<open>flush_audio\<close>\<close>

lemma published_append: "published (xs @ ys) = published xs @ published ys"
  by (induction xs rule: published.induct) simp_all

lemma flushed_append: "flushed (xs @ ys) = flushed xs @ flushed ys"
  by (induction xs rule: flushed.induct) simp_all

lemma created_append: "created (xs @ ys) = created xs @ created ys"
  by (induction xs rule: created.induct) simp_all

lemmas flush_defs = flush_audio_def publish_session_start_def session_start_payload_def
  transcribe_def publish_transcription_def transcription_payload_def uid_or_uuid4_def xadd_def
  Let_def split_def

lemma flush_audio_noop:
  "audio_bytes = [] \<or> \<not> truthy (token c) \<or> \<not> truthy (platform c) \<or> \<not> truthy (meeting_id c) \<Longrightarrow>
   flush_audio e audio_bytes sp off (c, w) = (Inr off, c, w\<lparr>trace := trace w @ [Flush audio_bytes]\<rparr>)"
  by (simp add: flush_audio_def)

lemma flush_audio_conn:
  assumes "flush_audio e a sp off (c, w) = (r, c', w')"
  shows "c' = c\<lparr>sent_session_start := sent_session_start c'\<rparr>"
    and "sent_session_start c \<Longrightarrow> sent_session_start c'"
  using assms by (auto simp: flush_defs split: if_splits option.splits)

lemma flush_audio_keeps:
  assumes "flush_audio e a sp off (c, w) = (r, c', w')"
  shows "buf c' = buf c" and "speaker c' = speaker c" and "last_send c' = last_send c"
    and "token c' = token c" and "platform c' = platform c" and "meeting_id c' = meeting_id c"
    and "uid c' = uid c" and "offset_sec c' = offset_sec c"
  using assms by (auto simp: flush_defs split: if_splits option.splits)

lemma flush_audio_offset:
  assumes "flush_audio e a sp off (c, w) = (Inr off', c', w')"
  shows "off' = off \<or> off' = fadd off (CHUNK_SECONDS e)"
  using assms by (auto simp: flush_defs split: if_splits option.splits)

lemma flush_audio_ss_count:
  assumes "flush_audio e a sp off (c, w) = (r, c', w')"
    and "ss_count (trace w) = (if sent_session_start c then 1 else 0)"
  shows "ss_count (trace w') = (if sent_session_start c' then 1 else 0)"
  using assms
  by (auto simp: flush_defs ss_count_def published_append is_session_start_def is_transcription_def
      payload_type_def dict_get_def split: if_splits option.splits)

subsection \<open>Invariants of the receive loop\<close>

lemma ws_loop_induct_rule:
  assumes init: "P s"
    and bytes_step: "\<And>s d t r s'. P s \<Longrightarrow> on_bytes e d t s = (r, s') \<Longrightarrow> P s'"
    and txt_step: "\<And>c w j r c'. P (c, w) \<Longrightarrow> on_text j c = (r, c') \<Longrightarrow> P (c', w)"
    and fin: "\<And>s pending. P s \<Longrightarrow> Q (ws_finally e pending s)"
    and waiting: "\<And>c w. P (c, w) \<Longrightarrow> Q (Awaiting c w)"
  shows "Q (ws_loop e s ms)"
  using init
proof (induction ms arbitrary: s)
  case Nil
  then show ?case using waiting [of "fst s" "snd s"] by simp
next
  case (Cons m ms)
  show ?case
  proof (cases m)
    case Disconnect
    then show ?thesis using Cons.prems fin by simp
  next
    case (Bytes d t)
    obtain r s' where step: "on_bytes e d t s = (r, s')" by (cases "on_bytes e d t s")
    have "P s'" using bytes_step [OF Cons.prems step] .
    then show ?thesis using Bytes step Cons.IH fin by (cases r) simp_all
  next
    case (Text j)
    obtain r c' where step: "on_text j (fst s) = (r, c')" by (cases "on_text j (fst s)")
    have "P (c', snd s)" using txt_step [of "fst s" "snd s" j r c'] Cons.prems step by simp
    then show ?thesis using Text step Cons.IH fin by (cases r) simp_all
  qed
qed

lemma on_text_sent:
  "on_text j c = (r, c') \<Longrightarrow> sent_session_start c' = sent_session_start c"
  by (auto simp: on_text_def speaker_activity_def Let_def split: option.splits json.splits if_splits)

lemma on_text_offset:
  "on_text j c = (r, c') \<Longrightarrow> offset_sec c' = offset_sec c"
  by (auto simp: on_text_def speaker_activity_def Let_def split: option.splits json.splits if_splits)

lemma on_bytes_ss_count:
  assumes "on_bytes e d t (c, w) = (r, c', w')"
    and "ss_count (trace w) = (if sent_session_start c then 1 else 0)"
  shows "ss_count (trace w') = (if sent_session_start c' then 1 else 0)"
proof (cases "CHUNK_SECONDS e \<le> fsub t (last_send c)")
  case False
  then show ?thesis using assms by (auto simp: on_bytes_def Let_def)
next
  case True
  obtain x c1 w1 where fl: "flush_audio e (buf c @ d) (speaker c) (offset_sec c) (c\<lparr>buf := buf c @ d\<rparr>, w) = (x, c1, w1)"
    by (metis prod_cases3)
  have "ss_count (trace w1) = (if sent_session_start c1 then 1 else 0)"
    using flush_audio_ss_count [OF fl] assms(2) by simp
  then show ?thesis using assms(1) True fl
    by (cases x) (auto simp: on_bytes_def Let_def)
qed

lemma ws_close_ss_count:
  "ss_count (trace w) = (if sent_session_start c then 1 else 0) \<Longrightarrow>
   ss_count (trace (world_of (ws_close p (c, w)))) = (if sent_session_start (conn_of (ws_close p (c, w))) then 1 else 0)"
  by (cases p) (simp_all add: ws_close_def ss_count_def published_append)

lemma ws_finally_ss_count:
  assumes "ss_count (trace w) = (if sent_session_start c then 1 else 0)"
  shows "ss_count (trace (world_of (ws_finally e p (c, w)))) = (if sent_session_start (conn_of (ws_finally e p (c, w))) then 1 else 0)"
proof (cases "buf c = []")
  case True
  then show ?thesis using ws_close_ss_count [OF assms] by (simp add: ws_finally_def)
next
  case False
  obtain x c1 w1 where fl: "flush_audio e (buf c) (speaker c) (offset_sec c) (c, w) = (x, c1, w1)"
    by (metis prod_cases3)
  have inv: "ss_count (trace w1) = (if sent_session_start c1 then 1 else 0)"
    using flush_audio_ss_count [OF fl assms] .
  show ?thesis
  proof (cases x)
    case (Inl err)
    then show ?thesis using False fl inv by (simp add: ws_finally_def)
  next
    case (Inr off)
    have "ss_count (trace w1) = (if sent_session_start (c1\<lparr>offset_sec := off\<rparr>) then 1 else 0)"
      using inv by simp
    from ws_close_ss_count [OF this] show ?thesis using False fl Inr by (simp add: ws_finally_def)
  qed
qed

lemma ws_loop_ss_count:
  assumes "ss_inv s"
  shows "ss_count (trace (world_of (ws_loop e s ms))) = (if sent_session_start (conn_of (ws_loop e s ms)) then 1 else 0)"
proof (rule ws_loop_induct_rule [where P = ss_inv and s = s])
  show "ss_inv s" by fact
next
  fix s d t r s' assume "ss_inv s" "on_bytes e d t s = (r, s')"
  then show "ss_inv s'" using on_bytes_ss_count [of e d t "fst s" "snd s" r "fst s'" "snd s'"]
    by (simp add: ss_inv_def)
next
  fix c w j r c' assume "ss_inv (c, w)" "on_text j c = (r, c')"
  then show "ss_inv (c', w)" using on_text_sent by (simp add: ss_inv_def)
next
  fix s pending assume "ss_inv s"
  then show "ss_count (trace (world_of (ws_finally e pending s))) = (if sent_session_start (conn_of (ws_finally e pending s)) then 1 else 0)"
    using ws_finally_ss_count [of "snd s" "fst s" e pending] by (simp add: ss_inv_def)
next
  fix c w assume "ss_inv (c, w)"
  then show "ss_count (trace (world_of (Awaiting c w))) = (if sent_session_start (conn_of (Awaiting c w)) then 1 else 0)"
    by (simp add: ss_inv_def)
qed

subsection \<open>The session start is published at most once\<close>

lemma on_bytes_sent_mono:
  assumes "on_bytes e d t (c, w) = (r, c', w')" and "sent_session_start c"
  shows "sent_session_start c'"
proof (cases "CHUNK_SECONDS e \<le> fsub t (last_send c)")
  case False
  then show ?thesis using assms by (auto simp: on_bytes_def Let_def)
next
  case True
  obtain x c1 w1 where fl: "flush_audio e (buf c @ d) (speaker c) (offset_sec c) (c\<lparr>buf := buf c @ d\<rparr>, w) = (x, c1, w1)"
    by (metis prod_cases3)
  have "sent_session_start c1" using flush_audio_conn(2) [OF fl] assms(2) by simp
  then show ?thesis using assms(1) True fl
    by (cases x) (auto simp: on_bytes_def Let_def)
qed

lemma ws_finally_sent_mono:
  assumes "sent_session_start c"
  shows "sent_session_start (conn_of (ws_finally e p (c, w)))"
proof (cases "buf c = []")
  case True
  then show ?thesis using assms by (cases p) (simp_all add: ws_finally_def ws_close_def)
next
  case False
  obtain x c1 w1 where fl: "flush_audio e (buf c) (speaker c) (offset_sec c) (c, w) = (x, c1, w1)"
    by (metis prod_cases3)
  have "sent_session_start c1" using flush_audio_conn(2) [OF fl] assms by simp
  then show ?thesis using False fl
    by (cases x; cases p) (simp_all add: ws_finally_def ws_close_def)
qed

lemma ws_loop_sent_mono:
  assumes "sent_session_start c"
  shows "sent_session_start (conn_of (ws_loop e (c, w) ms))"
proof (rule ws_loop_induct_rule [where P = "\<lambda>s :: conn \<times> world. sent_session_start (fst s)" and s = "(c, w)"])
  show "sent_session_start (fst (c, w))" using assms by simp
next
  fix s s' :: "conn \<times> world" and d t r assume "sent_session_start (fst s)" "on_bytes e d t s = (r, s')"
  then show "sent_session_start (fst s')"
    using on_bytes_sent_mono [of e d t "fst s" "snd s" r "fst s'" "snd s'"] by simp
next
  fix c c' :: conn and w :: world and j r assume "sent_session_start (fst (c, w))" "on_text j c = (r, c')"
  then show "sent_session_start (fst (c', w))" using on_text_sent by simp
next
  fix s :: "conn \<times> world" and pending assume "sent_session_start (fst s)"
  then show "sent_session_start (conn_of (ws_finally e pending s))"
    using ws_finally_sent_mono [of "fst s" e pending "snd s"] by simp
next
  fix c :: conn and w :: world assume "sent_session_start (fst (c, w))"
  then show "sent_session_start (conn_of (Awaiting c w))" by simp
qed

lemma fmt3_0: "fmt3 0 = ''0.000''"
  by (simp add: fmt3_def round_half_even_def dec.simps digit_def)

lemma fmt3_5: "fmt3 5 = ''5.000''"
  by (simp add: fmt3_def round_half_even_def dec.simps digit_def)

lemma fmt3_10: "fmt3 10 = ''10.000''"
  by (simp add: fmt3_def round_half_even_def dec.simps digit_def)

lemmas run_defs = ws_proxy_def init_conn_def init_world_def on_bytes_def on_text_def
  ws_finally_def ws_close_def flush_audio_def publish_session_start_def session_start_payload_def
  transcribe_def publish_transcription_def transcription_payload_def uid_or_uuid4_def xadd_def
  Let_def to_wav_def segment_def
  dict_has_def dict_get_def dict_get_default_def py_or_def speaker_activity_def
  fadd_def fsub_def

text \<open>
  C4: whatever the messages and whatever the collaborators answer, the stream receives at
  most one \<open>session_start\<close> payload over the whole connection, the final flush of
  the teardown included. The flag \<open>sent_session_start\<close> starts false and, once true,
  stays true from any state of the connection on.
\<close>

theorem session_start_at_most_once:
  "\<not> sent_session_start (init_conn t0) \<and>
   length (filter is_session_start (published (trace (world_of (ws_proxy e t0 ms))))) \<le> 1 \<and>
   (sent_session_start c \<longrightarrow> sent_session_start (conn_of (ws_loop e (c, w) ms')))"
proof -
  have "ss_inv (init_conn t0, init_world)"
    by (simp add: ss_inv_def ss_count_def init_conn_def init_world_def)
  from ws_loop_ss_count [OF this, of e ms]
  have "ss_count (trace (world_of (ws_proxy e t0 ms))) \<le> 1"
    by (simp add: ws_proxy_def)
  then show ?thesis
    using ws_loop_sent_mono [of c e w ms'] by (simp add: ss_count_def init_conn_def)
qed

theorem session_start_at_most_once_witness:
  "\<not> sent_session_start (init_conn 0) \<and>
   length (filter is_session_start (published (trace (world_of
     (ws_proxy env_ok 0 [Text (Some ident), Bytes [1, 2] 5, Bytes [3, 4] 10, Disconnect]))))) \<le> 1 \<and>
   sent_session_start (conn_of (ws_loop env_ok ((init_conn 0)\<lparr>sent_session_start := True\<rparr>, init_world)
     [Text (Some ident), Bytes [1, 2] 5, Disconnect]))"
  using session_start_at_most_once [of 0 env_ok
      "[Text (Some ident), Bytes [1, 2] 5, Bytes [3, 4] 10, Disconnect]"
      "(init_conn 0)\<lparr>sent_session_start := True\<rparr>" init_world
      "[Text (Some ident), Bytes [1, 2] 5, Disconnect]"]
  by simp

subsection \<open>The session start is best effort\<close>

text \<open>
  C6: with the stream handle set, audio to flush, the identity complete and no session
  start sent yet, \<open>flush_audio\<close> first calls \<open>xadd\<close> with the \<open>session_start\<close>
  payload; the flag afterwards is set exactly when that call returned; and, returned or
  raised, the next thing that happens is the backend call on the converted audio.
\<close>

theorem session_start_best_effort:
  assumes "redis e" and "audio_bytes \<noteq> []" and "identity_complete c"
    and "\<not> sent_session_start c"
  shows "\<exists>r c' w' rest.
           flush_audio e audio_bytes sp off (c, w) = (r, c', w') \<and>
           trace w' = trace w @
             [Flush audio_bytes,
              Xadd (fst (session_start_payload e c w)) (xadd_ok e (xadd_n w)),
              Create (to_wav audio_bytes) (create_resp e (create_n w) (to_wav audio_bytes))] @ rest \<and>
           is_session_start (fst (session_start_payload e c w)) \<and>
           sent_session_start c' = xadd_ok e (xadd_n w)"
  using assms
  by (cases "create_resp e (create_n w) (to_wav audio_bytes)")
     (auto simp: flush_defs identity_complete_def is_session_start_def payload_type_def dict_get_def)

theorem session_start_best_effort_witness:
  "redis env_stream_down \<and> identity_complete c_ident \<and> \<not> sent_session_start c_ident \<and>
   (\<exists>r c' w' rest.
      flush_audio env_stream_down [1, 2] (JStr ''unknown'') 0 (c_ident, init_world) = (r, c', w') \<and>
      trace w' =
        [Flush [1, 2],
         Xadd (fst (session_start_payload env_stream_down c_ident init_world)) False,
         Create (to_wav [1, 2]) (Some ''hello'')] @ rest \<and>
      is_session_start (fst (session_start_payload env_stream_down c_ident init_world)) \<and>
      \<not> sent_session_start c')"
proof -
  have hyps: "redis env_stream_down" "[1, 2] \<noteq> ([] :: bytes)" "identity_complete c_ident"
    "\<not> sent_session_start c_ident"
    by (simp_all add: env_stream_down_def env_ok_def c_ident_def identity_complete_def init_conn_def)
  have answers: "xadd_ok env_stream_down (xadd_n init_world) = False"
    "create_resp env_stream_down (create_n init_world) (to_wav [1, 2]) = Some ''hello''"
    "trace init_world = []"
    by (simp_all add: env_stream_down_def env_ok_def init_world_def)
  show ?thesis
    using session_start_best_effort [OF hyps, of "JStr ''unknown''" 0 init_world] hyps
    by (simp add: answers)
qed

subsection \<open>The final flush\<close>

lemma flush_audio_trace:
  assumes "flush_audio e a sp off (c, w) = (r, c', w')"
  shows "\<exists>tr. trace w' = trace w @ Flush a # tr \<and> flushed tr = [] \<and> WsClose \<notin> set tr"
  using assms by (auto simp: flush_defs split: if_splits option.splits)

lemma ws_finally_not_awaiting: "ws_finally e p s \<noteq> Awaiting c w"
  by (cases s; cases p)
     (auto simp: ws_finally_def ws_close_def Let_def split: prod.splits sum.splits)

lemma ws_loop_append:
  assumes "ws_loop e s ms = Awaiting c w"
  shows "ws_loop e s (ms @ ms') = ws_loop e (c, w) ms'"
  using assms
proof (induction ms arbitrary: s)
  case Nil
  then show ?case by (cases s) simp
next
  case (Cons m ms)
  show ?case
  proof (cases m)
    case Disconnect
    then show ?thesis using Cons.prems ws_finally_not_awaiting by simp
  next
    case (Bytes d t)
    obtain r s' where step: "on_bytes e d t s = (r, s')" by (cases "on_bytes e d t s")
    show ?thesis
    proof (cases r)
      case None
      then show ?thesis using Bytes step Cons by simp
    next
      case (Some err)
      then show ?thesis using Bytes step Cons.prems ws_finally_not_awaiting by simp
    qed
  next
    case (Text j)
    obtain r c' where step: "on_text j (fst s) = (r, c')" by (cases "on_text j (fst s)")
    show ?thesis
    proof (cases r)
      case None
      then show ?thesis using Text step Cons by simp
    next
      case (Some err)
      then show ?thesis using Text step Cons.prems ws_finally_not_awaiting by simp
    qed
  qed
qed

lemma ws_finally_disconnect:
  "flushed (trace (world_of (ws_finally e None (c, w)))) =
     flushed (trace w) @ (if buf c = [] then [] else [buf c]) \<and>
   (\<forall>c' w'. ws_finally e None (c, w) = Returned c' w' \<longrightarrow>
      (\<exists>tr. trace w' = trace w @ tr @ [WsClose] \<and> WsClose \<notin> set tr \<and>
            flushed tr = (if buf c = [] then [] else [buf c]))) \<and>
   (\<forall>err c' w'. ws_finally e None (c, w) = Raised err c' w' \<longrightarrow>
      buf c \<noteq> [] \<and> WsClose \<notin> set (drop (length (trace w)) (trace w')))"
proof (cases "buf c = []")
  case True
  then show ?thesis by (simp add: ws_finally_def ws_close_def flushed_append)
next
  case False
  obtain x c1 w1 where fl: "flush_audio e (buf c) (speaker c) (offset_sec c) (c, w) = (x, c1, w1)"
    by (metis prod_cases3)
  from flush_audio_trace [OF fl] obtain tr where
    tr: "trace w1 = trace w @ Flush (buf c) # tr" "flushed tr = []" "WsClose \<notin> set tr" by blast
  show ?thesis
  proof (cases x)
    case (Inl err)
    then show ?thesis using False fl tr by (simp add: ws_finally_def flushed_append)
  next
    case (Inr off)
    then show ?thesis using False fl tr
      by (auto simp: ws_finally_def ws_close_def flushed_append intro: exI [where x = "Flush (buf c) # tr"])
  qed
qed

text \<open>
  C7: when the disconnect arrives with the loop waiting in state \<open>(c, w)\<close>, the rest
  of the run is the teardown alone. It invokes \<open>flush_audio\<close> once more, with exactly
  the bytes of \<open>buf\<close>, when \<open>buf\<close> is not empty, and not at all when it is empty;
  and when the handler returns, \<open>ws.close()\<close> is the last thing it did, after that
  flush.
\<close>

theorem final_flush_on_disconnect:
  assumes "ws_loop e s ms = Awaiting c w"
  shows "flushed (trace (world_of (ws_loop e s (ms @ Disconnect # rest)))) =
           flushed (trace w) @ (if buf c = [] then [] else [buf c]) \<and>
         (\<forall>c' w'. ws_loop e s (ms @ Disconnect # rest) = Returned c' w' \<longrightarrow>
            (\<exists>tr. trace w' = trace w @ tr @ [WsClose] \<and> WsClose \<notin> set tr \<and>
                  flushed tr = (if buf c = [] then [] else [buf c]))) \<and>
         (\<forall>err c' w'. ws_loop e s (ms @ Disconnect # rest) = Raised err c' w' \<longrightarrow>
            buf c \<noteq> [] \<and> WsClose \<notin> set (drop (length (trace w)) (trace w'))) \<and>
         (\<forall>c' w'. ws_loop e s (ms @ Disconnect # rest) \<noteq> Awaiting c' w')"
proof -
  have "ws_loop e s (ms @ Disconnect # rest) = ws_finally e None (c, w)"
    using ws_loop_append [OF assms, of "Disconnect # rest"] by simp
  then show ?thesis
    using ws_finally_disconnect [of e c w] ws_finally_not_awaiting [of e None "(c, w)"] by simp
qed

theorem final_flush_on_disconnect_witness:
  "ws_loop env_ok (init_conn 0, init_world) [Text (Some ident), Bytes [1, 2] 1] =
     Awaiting (c_ident\<lparr>buf := [1, 2]\<rparr>) init_world \<and>
   flushed (trace (world_of (ws_loop env_ok (init_conn 0, init_world)
     ([Text (Some ident), Bytes [1, 2] 1] @ Disconnect # [Bytes [9] 2])))) = [[1, 2]]"
proof -
  have waiting: "ws_loop env_ok (init_conn 0, init_world) [Text (Some ident), Bytes [1, 2] 1] =
      Awaiting (c_ident\<lparr>buf := [1, 2]\<rparr>) init_world"
    by (simp add: run_defs env_ok_def ident_def c_ident_def)
  show ?thesis
    using final_flush_on_disconnect [OF waiting, of "[Bytes [9] 2]"] waiting
    by (simp add: init_world_def)
qed

subsection \<open>Speaker activity\<close>

text \<open>
  C8: for a text frame that is a speaker-activity object (not an identity message, its
  \<open>payload\<close> an object whose \<open>participant_name\<close> is the string \<open>name\<close>):
  \<open>SPEAKER_START\<close> with a name that is not empty makes that name the speaker;
  \<open>SPEAKER_END\<close> naming the current speaker puts the speaker back to \<open>unknown\<close>;
  \<open>SPEAKER_END\<close> naming anyone else changes nothing. No case raises.
\<close>

theorem speaker_activity_update:
  assumes "\<not> list_all (dict_has obj) [''token'', ''platform'', ''meeting_id'']"
    and "dict_get obj ''type'' = JStr ''speaker_activity''"
    and "map_of obj ''payload'' = Some (JObj payload_event)"
    and "dict_get payload_event ''participant_name'' = JStr name"
  shows "(dict_get payload_event ''event_type'' = JStr ''SPEAKER_START'' \<and> name \<noteq> [] \<longrightarrow>
            on_text (Some (JObj obj)) c = (None, c\<lparr>speaker := JStr name\<rparr>)) \<and>
         (dict_get payload_event ''event_type'' = JStr ''SPEAKER_END'' \<and> name \<noteq> [] \<and>
          speaker c = JStr name \<longrightarrow>
            on_text (Some (JObj obj)) c = (None, c\<lparr>speaker := JStr ''unknown''\<rparr>)) \<and>
         (dict_get payload_event ''event_type'' = JStr ''SPEAKER_END'' \<and> speaker c \<noteq> JStr name \<longrightarrow>
            on_text (Some (JObj obj)) c = (None, c))"
  using assms
  by (auto simp: on_text_def speaker_activity_def dict_get_default_def py_or_def Let_def)

theorem speaker_activity_update_witness:
  "on_text (Some (speaker_msg ''SPEAKER_START'' ''Ann'')) c_ident =
     (None, c_ident\<lparr>speaker := JStr ''Ann''\<rparr>) \<and>
   on_text (Some (speaker_msg ''SPEAKER_END'' ''Ann'')) (c_ident\<lparr>speaker := JStr ''Ann''\<rparr>) =
     (None, c_ident\<lparr>speaker := JStr ''unknown''\<rparr>) \<and>
   on_text (Some (speaker_msg ''SPEAKER_END'' ''Bob'')) (c_ident\<lparr>speaker := JStr ''Ann''\<rparr>) =
     (None, c_ident\<lparr>speaker := JStr ''Ann''\<rparr>)"
  using
    speaker_activity_update [of
      "[(''type'', JStr ''speaker_activity''),
        (''payload'', JObj [(''event_type'', JStr ''SPEAKER_START''), (''participant_name'', JStr ''Ann'')])]"
      "[(''event_type'', JStr ''SPEAKER_START''), (''participant_name'', JStr ''Ann'')]" "''Ann''" c_ident]
    speaker_activity_update [of
      "[(''type'', JStr ''speaker_activity''),
        (''payload'', JObj [(''event_type'', JStr ''SPEAKER_END''), (''participant_name'', JStr ''Ann'')])]"
      "[(''event_type'', JStr ''SPEAKER_END''), (''participant_name'', JStr ''Ann'')]" "''Ann''"
      "c_ident\<lparr>speaker := JStr ''Ann''\<rparr>"]
    speaker_activity_update [of
      "[(''type'', JStr ''speaker_activity''),
        (''payload'', JObj [(''event_type'', JStr ''SPEAKER_END''), (''participant_name'', JStr ''Bob'')])]"
      "[(''event_type'', JStr ''SPEAKER_END''), (''participant_name'', JStr ''Bob'')]" "''Bob''"
      "c_ident\<lparr>speaker := JStr ''Ann''\<rparr>"]
  by (simp add: speaker_msg_def dict_has_def dict_get_def)

subsection \<open>A failing backend call\<close>

text \<open>
  C1, as the code has it: when the backend call raises, the exception leaves
  \<open>flush_audio\<close>; that flush publishes no \<open>transcription\<close> payload and the offset
  is not advanced.
\<close>

theorem backend_failure_propagates:
  assumes "audio_bytes \<noteq> []" and "identity_complete c"
    and "create_resp e (create_n w) (to_wav audio_bytes) = None"
  shows "\<exists>c' w'.
           flush_audio e audio_bytes sp off (c, w) = (Inl BackendError, c', w') \<and>
           filter is_transcription (published (trace w')) =
             filter is_transcription (published (trace w)) \<and>
           offset_sec c' = offset_sec c"
  using assms
  by (auto simp: flush_defs identity_complete_def published_append is_transcription_def
      payload_type_def dict_get_def)

theorem backend_failure_propagates_witness:
  "identity_complete c_ident \<and>
   create_resp env_backend_down (create_n init_world) (to_wav [1, 2]) = None \<and>
   (\<exists>c' w'.
      flush_audio env_backend_down [1, 2] (JStr ''unknown'') 0 (c_ident, init_world) =
        (Inl BackendError, c', w') \<and>
      filter is_transcription (published (trace w')) = [] \<and> offset_sec c' = 0)"
proof -
  have hyps: "[1, 2] \<noteq> ([] :: bytes)" "identity_complete c_ident"
    "create_resp env_backend_down (create_n init_world) (to_wav [1, 2]) = None"
    by (simp_all add: identity_complete_def c_ident_def init_conn_def env_backend_down_def env_ok_def)
  have start: "trace init_world = []" "offset_sec c_ident = 0"
    by (simp_all add: init_world_def c_ident_def init_conn_def)
  show ?thesis
    using backend_failure_propagates [OF hyps, of "JStr ''unknown''" 0] hyps
    by (simp add: start)
qed

text \<open>
  The run that C1 as stated excludes: the identity, a frame that is due at \<open>t = 5\<close>,
  one more frame, with the backend down. The first flush raises, the loop has no handler,
  and the teardown flushes the same two bytes again and raises in turn. The handler is
  left by \<open>BackendError\<close>; the offset is still 0, not 5; the frame \<open>[3, 4]\<close> is
  never received.
\<close>

theorem backend_failure_counterexample:
  "raised (ws_proxy env_backend_down 0 [Text (Some ident), Bytes [1, 2] 5, Bytes [3, 4] 10]) =
     Some BackendError \<and>
   offset_sec (conn_of (ws_proxy env_backend_down 0
     [Text (Some ident), Bytes [1, 2] 5, Bytes [3, 4] 10])) = 0 \<and>
   offset_sec (conn_of (ws_proxy env_backend_down 0
     [Text (Some ident), Bytes [1, 2] 5, Bytes [3, 4] 10])) \<noteq> fadd 0 (CHUNK_SECONDS env_backend_down) \<and>
   buf (conn_of (ws_proxy env_backend_down 0
     [Text (Some ident), Bytes [1, 2] 5, Bytes [3, 4] 10])) = [1, 2] \<and>
   flushed (trace (world_of (ws_proxy env_backend_down 0
     [Text (Some ident), Bytes [1, 2] 5, Bytes [3, 4] 10]))) = [[1, 2], [1, 2]]"
  by (simp add: run_defs env_backend_down_def env_ok_def ident_def)

subsection \<open>Flushes before the identity is known\<close>

text \<open>
  C2, as the code has it: with the identity incomplete, \<open>flush_audio\<close> returns the
  offset it was given and touches nothing (no \<open>xadd\<close>, no backend call, only the
  history mark of the invocation); and the loop, when such a flush was due, empties
  \<open>buf\<close> and restarts the timer all the same.
\<close>

theorem incomplete_identity_flush_noop:
  assumes "\<not> identity_complete c"
  shows "flush_audio e audio_bytes sp off (c, w) =
           (Inr off, c, w\<lparr>trace := trace w @ [Flush audio_bytes]\<rparr>) \<and>
         (CHUNK_SECONDS e \<le> fsub now (last_send c) \<longrightarrow>
            on_bytes e data_bytes now (c, w) =
              (None, c\<lparr>buf := [], last_send := now\<rparr>,
               w\<lparr>trace := trace w @ [Flush (buf c @ data_bytes)]\<rparr>))"
proof -
  have noop: "\<And>a sp off c'. \<not> identity_complete c' \<Longrightarrow>
      flush_audio e a sp off (c', w) = (Inr off, c', w\<lparr>trace := trace w @ [Flush a]\<rparr>)"
    by (rule flush_audio_noop) (auto simp: identity_complete_def)
  have "\<not> identity_complete (c\<lparr>buf := buf c @ data_bytes\<rparr>)"
    using assms by (simp add: identity_complete_def)
  from noop [OF this] noop [OF assms] show ?thesis
    by (simp add: on_bytes_def Let_def)
qed

theorem incomplete_identity_flush_noop_witness:
  "\<not> identity_complete (init_conn 0) \<and>
   flush_audio env_ok [1, 2] (JStr ''unknown'') 0 (init_conn 0, init_world) =
     (Inr 0, init_conn 0, init_world\<lparr>trace := [Flush [1, 2]]\<rparr>) \<and>
   CHUNK_SECONDS env_ok \<le> fsub 5 (last_send (init_conn 0)) \<and>
   on_bytes env_ok [1, 2] 5 (init_conn 0, init_world) =
     (None, (init_conn 0)\<lparr>buf := [], last_send := 5\<rparr>, init_world\<lparr>trace := [Flush [1, 2]]\<rparr>)"
proof -
  have hyps: "\<not> identity_complete (init_conn 0)" "CHUNK_SECONDS env_ok \<le> fsub 5 (last_send (init_conn 0))"
    by (simp_all add: identity_complete_def init_conn_def env_ok_def fsub_def)
  show ?thesis
    using incomplete_identity_flush_noop [OF hyps(1), of env_ok "[1, 2]" "JStr ''unknown''" 0 init_world 5 "[1, 2]"] hyps
    by (simp add: init_world_def init_conn_def)
qed

text \<open>
  The run that C2 as stated excludes: a frame that is due before any identity message,
  then the identity, then a second due frame. The no-op flush leaves \<open>buf\<close> empty,
  and the backend later receives the frames \<open>[3, 4]\<close>, not \<open>[1, 2, 3, 4]\<close>.
\<close>

theorem early_audio_discarded_counterexample:
  "buf (conn_of (ws_proxy env_ok 0 [Bytes [1, 2] 5])) = [] \<and>
   flushed (trace (world_of (ws_proxy env_ok 0 [Bytes [1, 2] 5, Text (Some ident), Bytes [3, 4] 10]))) =
     [[1, 2], [3, 4]] \<and>
   created (trace (world_of (ws_proxy env_ok 0 [Bytes [1, 2] 5, Text (Some ident), Bytes [3, 4] 10]))) =
     [to_wav [3, 4]] \<and>
   to_wav [3, 4] \<noteq> to_wav [1, 2, 3, 4]"
  by (simp add: run_defs env_ok_def ident_def fmt3_0 fmt3_5)

subsection \<open>The uid of the events\<close>

lemma flush_audio_uid_inv:
  assumes "flush_audio e a sp off (c, w) = (r, c', w')" and "truthy u" and "uid_inv u (c, w)"
  shows "uid_inv u (c', w')"
  using assms
  by (auto simp: flush_defs uid_inv_def identity_complete_def published_append payload_uid_def
      dict_get_def split: if_splits option.splits)

lemma on_bytes_uid_inv:
  assumes "on_bytes e d t (c, w) = (r, c', w')" and "truthy u" and "uid_inv u (c, w)"
  shows "uid_inv u (c', w')"
proof (cases "CHUNK_SECONDS e \<le> fsub t (last_send c)")
  case False
  then show ?thesis using assms by (auto simp: on_bytes_def Let_def uid_inv_def identity_complete_def)
next
  case True
  obtain x c1 w1 where fl: "flush_audio e (buf c @ d) (speaker c) (offset_sec c) (c\<lparr>buf := buf c @ d\<rparr>, w) = (x, c1, w1)"
    by (metis prod_cases3)
  have "uid_inv u (c\<lparr>buf := buf c @ d\<rparr>, w)"
    using assms(3) by (simp add: uid_inv_def identity_complete_def)
  from flush_audio_uid_inv [OF fl assms(2) this] have "uid_inv u (c1, w1)" .
  then show ?thesis using assms(1) True fl
    by (cases x) (auto simp: on_bytes_def Let_def uid_inv_def identity_complete_def)
qed

lemma on_text_uid_inv:
  assumes "on_text j c = (r, c')" and "truthy u" and "uid_inv u (c, w)"
    and "supplies_uid u (Text j)"
  shows "uid_inv u (c', w)"
  using assms
  by (auto simp: on_text_def speaker_activity_def uid_inv_def identity_complete_def py_or_def Let_def
      split: option.splits json.splits if_splits)

lemma ws_finally_uid_inv:
  assumes "truthy u" and "uid_inv u (c, w)"
  shows "list_all (\<lambda>p. payload_uid p = u) (published (trace (world_of (ws_finally e p (c, w)))))"
proof (cases "buf c = []")
  case True
  then show ?thesis using assms(2)
    by (cases p) (simp_all add: ws_finally_def ws_close_def uid_inv_def published_append)
next
  case False
  obtain x c1 w1 where fl: "flush_audio e (buf c) (speaker c) (offset_sec c) (c, w) = (x, c1, w1)"
    by (metis prod_cases3)
  from flush_audio_uid_inv [OF fl assms] have "uid_inv u (c1, w1)" .
  then show ?thesis using False fl
    by (cases x; cases p) (simp_all add: ws_finally_def ws_close_def uid_inv_def published_append)
qed

lemma ws_loop_uid:
  assumes "truthy u" and "uid_inv u s" and "list_all (supplies_uid u) ms"
  shows "list_all (\<lambda>p. payload_uid p = u) (published (trace (world_of (ws_loop e s ms))))"
  using assms(2,3)
proof (induction ms arbitrary: s)
  case Nil
  then show ?case by (simp add: uid_inv_def)
next
  case (Cons m ms)
  show ?case
  proof (cases m)
    case Disconnect
    then show ?thesis using ws_finally_uid_inv [OF assms(1), of "fst s" "snd s"] Cons.prems by simp
  next
    case (Bytes d t)
    obtain r s' where step: "on_bytes e d t s = (r, s')" by (cases "on_bytes e d t s")
    have inv: "uid_inv u s'"
      using on_bytes_uid_inv [of e d t "fst s" "snd s" r "fst s'" "snd s'" u] step assms(1) Cons.prems
      by simp
    show ?thesis
    proof (cases r)
      case None
      then show ?thesis using Bytes step Cons.IH [OF inv] Cons.prems by simp
    next
      case (Some err)
      then show ?thesis using Bytes step ws_finally_uid_inv [OF assms(1), of "fst s'" "snd s'"] inv
        by simp
    qed
  next
    case (Text j)
    obtain r c' where step: "on_text j (fst s) = (r, c')" by (cases "on_text j (fst s)")
    have inv: "uid_inv u (c', snd s)"
      using on_text_uid_inv [of j "fst s" r c' u "snd s"] step assms(1) Cons.prems Text by simp
    show ?thesis
    proof (cases r)
      case None
      then show ?thesis using Text step Cons.IH [OF inv] Cons.prems by simp
    next
      case (Some err)
      then show ?thesis using Text step ws_finally_uid_inv [OF assms(1) inv] by simp
    qed
  qed
qed

text \<open>
  C3, as the code has it: when every identity message of the session supplies the same
  uid, and that uid is not empty, every payload the stream receives, the
  \<open>session_start\<close> and each \<open>transcription\<close>, carries that uid.
\<close>

theorem uid_of_client_on_every_event:
  assumes "truthy u" and "\<forall>m \<in> set ms. supplies_uid u m"
  shows "\<forall>p \<in> set (published (trace (world_of (ws_proxy e t0 ms)))). payload_uid p = u"
proof -
  have "uid_inv u (init_conn t0, init_world)"
    by (simp add: uid_inv_def identity_complete_def init_conn_def init_world_def)
  from ws_loop_uid [OF assms(1) this, of ms e] assms(2) show ?thesis
    by (simp add: ws_proxy_def list_all_iff)
qed

theorem uid_of_client_on_every_event_witness:
  "truthy (JStr ''u1'') \<and>
   list_all (supplies_uid (JStr ''u1'')) [Text (Some (ident_uid ''u1'')), Bytes [1, 2] 5, Bytes [3, 4] 10] \<and>
   map payload_uid (published (trace (world_of (ws_proxy env_ok 0
     [Text (Some (ident_uid ''u1'')), Bytes [1, 2] 5, Bytes [3, 4] 10])))) =
     [JStr ''u1'', JStr ''u1'', JStr ''u1'']"
proof -
  have hyps: "truthy (JStr ''u1'')"
    "\<forall>m \<in> set [Text (Some (ident_uid ''u1'')), Bytes [1, 2] 5, Bytes [3, 4] 10]. supplies_uid (JStr ''u1'') m"
    by (simp_all add: ident_uid_def dict_has_def dict_get_def)
  have len: "length (published (trace (world_of (ws_proxy env_ok 0
     [Text (Some (ident_uid ''u1'')), Bytes [1, 2] 5, Bytes [3, 4] 10])))) = 3"
    by (simp add: run_defs env_ok_def ident_uid_def fmt3_0 fmt3_5 fmt3_10)
  show ?thesis
    using uid_of_client_on_every_event [OF hyps, of env_ok 0] hyps len
    by (auto simp: list_all_iff map_eq_conv length_Suc_conv numeral_3_eq_3)
qed

text \<open>
  Two runs that C3 as stated excludes. Without a uid from the client, each payload gets
  a uuid of its own: \<open>uuid4\<close> is called once at line 77 and once more at line 122.
  And with two identity messages of different uids, the \<open>session_start\<close> carries
  the first and a later \<open>transcription\<close> the second.
\<close>

theorem uid_per_event_counterexample:
  "map payload_uid (published (trace (world_of (ws_proxy env_ok 0
     [Text (Some ident), Bytes [1, 2] 5])))) = [JStr ''uuid-0'', JStr ''uuid-1''] \<and>
   map payload_uid (published (trace (world_of (ws_proxy env_ok 0
     [Text (Some (ident_uid ''u1'')), Bytes [1, 2] 5, Text (Some (ident_uid ''u2'')), Bytes [3, 4] 10])))) =
     [JStr ''u1'', JStr ''u1'', JStr ''u2'']"
  by (simp add: run_defs env_ok_def ident_def ident_uid_def fmt3_0 fmt3_5 fmt3_10 payload_uid_def)

subsection \<open>The first chunk\<close>

lemma ws_loop_buffering:
  assumes "\<forall>(d, t) \<in> set fs. fsub t (last_send c) < CHUNK_SECONDS e"
  shows "ws_loop e (c, w) (map (\<lambda>(d, t). Bytes d t) fs @ ms) =
         ws_loop e (c\<lparr>buf := buf c @ concat (map fst fs)\<rparr>, w) ms"
  using assms
proof (induction fs arbitrary: c)
  case Nil
  then show ?case by simp
next
  case (Cons f fs)
  obtain d t where f: "f = (d, t)" by (cases f)
  have step: "on_bytes e d t (c, w) = (None, c\<lparr>buf := buf c @ d\<rparr>, w)"
    using Cons.prems f by (auto simp: on_bytes_def Let_def)
  have "\<forall>(d', t') \<in> set fs. fsub t' (last_send (c\<lparr>buf := buf c @ d\<rparr>)) < CHUNK_SECONDS e"
    using Cons.prems by simp
  from Cons.IH [OF this] show ?case using f step by simp
qed

text \<open>
  C9: the identity message \<open>{token: t1, platform: zoom, meeting_id: m1}\<close>, then
  binary frames that arrive before the chunk length of 5 seconds has passed, then the
  frame with which it has passed. With the stream and the backend answering, the stream
  then holds exactly two payloads: the \<open>session_start\<close>, and after it one
  \<open>transcription\<close> whose only segment has the backend's text, start \<open>0.000\<close>, end
  \<open>5.000\<close> and language null.
\<close>

theorem first_chunk_scenario:
  assumes "redis e" and "CHUNK_SECONDS e = 5" and "xadd_ok e 0" and "xadd_ok e 1"
    and "create_resp e 0 (to_wav (concat (map fst fs) @ d)) = Some txt"
    and "\<forall>(d', t') \<in> set fs. fsub t' t0 < 5" and "5 \<le> fsub t t0"
    and "concat (map fst fs) @ d \<noteq> []"
  shows "published (trace (world_of (ws_proxy e t0
           (Text (Some ident) # map (\<lambda>(d, t). Bytes d t) fs @ [Bytes d t])))) =
         [JObj [(''type'', JStr ''session_start''),
                (''token'', JStr ''t1''),
                (''platform'', JStr ''zoom''),
                (''meeting_id'', JStr ''m1''),
                (''uid'', JStr (uuid4 e 0)),
                (''start_timestamp'', JStr (utcnow e 0 @ ''Z''))],
          JObj [(''type'', JStr ''transcription''),
                (''token'', JStr ''t1''),
                (''platform'', JStr ''zoom''),
                (''meeting_id'', JStr ''m1''),
                (''segments'', JArr [JObj [(''text'', JStr txt),
                                           (''start'', JStr ''0.000''),
                                           (''end'', JStr ''5.000''),
                                           (''language'', JNull)]]),
                (''uid'', JStr (uuid4 e 1))]]"
proof -
  let ?c1 = "(init_conn t0)\<lparr>token := JStr ''t1'', platform := JStr ''zoom'', meeting_id := JStr ''m1''\<rparr>"
  let ?audio = "concat (map fst fs) @ d"
  have ident_step: "on_text (Some ident) (init_conn t0) = (None, ?c1)"
    by (simp add: on_text_def ident_def dict_has_def dict_get_def py_or_def init_conn_def)
  have "\<forall>(d', t') \<in> set fs. fsub t' (last_send ?c1) < CHUNK_SECONDS e"
    using assms(2,6) by (simp add: init_conn_def)
  from ws_loop_buffering [OF this, of init_world "[Bytes d t]"]
  have run: "ws_proxy e t0 (Text (Some ident) # map (\<lambda>(d, t). Bytes d t) fs @ [Bytes d t]) =
      ws_loop e (?c1\<lparr>buf := concat (map fst fs)\<rparr>, init_world) [Bytes d t]"
    using ident_step by (simp add: ws_proxy_def init_conn_def del: ws_loop.simps(3))
  show ?thesis
    unfolding run using assms(1-5,7,8)
    by (simp add: on_bytes_def flush_audio_def publish_session_start_def session_start_payload_def
        transcribe_def publish_transcription_def transcription_payload_def uid_or_uuid4_def
        xadd_def Let_def segment_def fadd_def
        init_conn_def init_world_def fmt3_0 fmt3_5)
qed

theorem first_chunk_scenario_witness:
  "redis env_ok \<and> CHUNK_SECONDS env_ok = 5 \<and> xadd_ok env_ok 0 \<and> xadd_ok env_ok 1 \<and>
   create_resp env_ok 0
     (to_wav (concat (map fst [([0, 0] :: bytes, 1 :: real), ([0, 0], 3)]) @ [0, 0])) = Some ''hello'' \<and>
   published (trace (world_of (ws_proxy env_ok 0
     (Text (Some ident) # map (\<lambda>(d, t). Bytes d t) [([0, 0], 1), ([0, 0], 3)] @ [Bytes [0, 0] 5])))) =
     [JObj [(''type'', JStr ''session_start''),
            (''token'', JStr ''t1''),
            (''platform'', JStr ''zoom''),
            (''meeting_id'', JStr ''m1''),
            (''uid'', JStr ''uuid-0''),
            (''start_timestamp'', JStr ''2024-01-01T00:00:00Z'')],
      JObj [(''type'', JStr ''transcription''),
            (''token'', JStr ''t1''),
            (''platform'', JStr ''zoom''),
            (''meeting_id'', JStr ''m1''),
            (''segments'', JArr [JObj [(''text'', JStr ''hello''),
                                       (''start'', JStr ''0.000''),
                                       (''end'', JStr ''5.000''),
                                       (''language'', JNull)]]),
            (''uid'', JStr ''uuid-1'')]]"
proof -
  have hyps: "redis env_ok" "CHUNK_SECONDS env_ok = 5" "xadd_ok env_ok 0" "xadd_ok env_ok 1"
    "create_resp env_ok 0 (to_wav (concat (map fst [([0, 0] :: bytes, 1 :: real), ([0, 0], 3)]) @ [0, 0])) = Some ''hello''"
    "\<forall>(d', t') \<in> set [([0, 0] :: bytes, 1 :: real), ([0, 0], 3)]. fsub t' 0 < 5" "(5 :: real) \<le> fsub 5 0"
    "concat (map fst [([0, 0] :: bytes, 1 :: real), ([0, 0], 3)]) @ [0, 0] \<noteq> []"
    by (simp_all add: env_ok_def fsub_def)
  have answers: "uuid4 env_ok 0 = ''uuid-0''" "uuid4 env_ok (Suc 0) = ''uuid-1''"
    "utcnow env_ok 0 = ''2024-01-01T00:00:00''"
    by (simp_all add: env_ok_def)
  show ?thesis
    using first_chunk_scenario [OF hyps] hyps(1-5) by (simp add: answers)
qed

subsection \<open>The speaker stays out of the stream\<close>























end
